theory Spec2Isabelle
  imports Complex_Main
begin

unbundle bit_operations_syntax

section \<open>Data model\<close>

text \<open>
  The simulator is JavaScript. A JavaScript number is modelled as a \<open>real\<close>: every
  statement below is about the exact arithmetic of the formulas in the source, and says
  nothing about IEEE-754 rounding. An amplitude is the object \<open>{ re, im }\<close>.
\<close>

record amp =
  re :: real
  im :: real

text \<open>
  Thrown exceptions are values. \<open>TypeError\<close> is what reading a property of
  \<open>undefined\<close> throws (an array read out of range gives \<open>undefined\<close>), and
  \<open>RangeError\<close> is what \<open>Array(size)\<close> throws for an invalid length.
\<close>

datatype error = TypeError | RangeError

text \<open>
  The operators \<open><<\<close> and \<open>>>\<close> work on 32-bit integers and take the shift count
  modulo 32. The model computes on \<open>nat\<close>; it agrees with the source as long as the
  operands stay below \<open>2^31\<close>, which holds for every index of an array of \<open>2^n\<close>
  elements with \<open>n < 32\<close>.
\<close>

definition js_shl1 :: "nat \<Rightarrow> nat" where
  "js_shl1 k = push_bit (k mod 32) 1"

definition js_shr :: "nat \<Rightarrow> nat \<Rightarrow> nat" where
  "js_shr i k = drop_bit (k mod 32) i"

text \<open>A \<open>for\<close> loop over the indices \<open>is\<close> whose body may throw.\<close>

fun forEach :: "nat list \<Rightarrow> (nat \<Rightarrow> 'a \<Rightarrow> error + 'a) \<Rightarrow> 'a \<Rightarrow> error + 'a" where
  "forEach [] body a = Inr a"
| "forEach (i # is) body a =
     (case body i a of Inl e \<Rightarrow> Inl e | Inr a' \<Rightarrow> forEach is body a')"

section \<open>Complex arithmetic and the gate matrices\<close>

definition complexAdd :: "amp \<Rightarrow> amp \<Rightarrow> amp" where
  "complexAdd a b = \<lparr>re = re a + re b, im = im a + im b\<rparr>"

definition complexMultiply :: "amp \<Rightarrow> amp \<Rightarrow> amp" where
  "complexMultiply a b =
     \<lparr>re = (re a * re b) - (im a * im b), im = (re a * im b) + (im a * re b)\<rparr>"

text \<open>
  The six matrices. In the source the entries \<open>1/Math.sqrt(2)\<close>,
  \<open>Math.cos(Math.PI/4)\<close> and \<open>Math.sin(Math.PI/4)\<close> are doubles; here they are the
  exact reals. No statement below depends on the value of these entries.
\<close>

definition hadamardMatrix :: "amp list list" where
  "hadamardMatrix =
     [[\<lparr>re = 1 / sqrt 2, im = 0\<rparr>, \<lparr>re = 1 / sqrt 2, im = 0\<rparr>],
      [\<lparr>re = 1 / sqrt 2, im = 0\<rparr>, \<lparr>re = - 1 / sqrt 2, im = 0\<rparr>]]"

definition xMatrix :: "amp list list" where
  "xMatrix =
     [[\<lparr>re = 0, im = 0\<rparr>, \<lparr>re = 1, im = 0\<rparr>],
      [\<lparr>re = 1, im = 0\<rparr>, \<lparr>re = 0, im = 0\<rparr>]]"

definition yMatrix :: "amp list list" where
  "yMatrix =
     [[\<lparr>re = 0, im = 0\<rparr>, \<lparr>re = 0, im = - 1\<rparr>],
      [\<lparr>re = 0, im = 1\<rparr>, \<lparr>re = 0, im = 0\<rparr>]]"

definition zMatrix :: "amp list list" where
  "zMatrix =
     [[\<lparr>re = 1, im = 0\<rparr>, \<lparr>re = 0, im = 0\<rparr>],
      [\<lparr>re = 0, im = 0\<rparr>, \<lparr>re = - 1, im = 0\<rparr>]]"

definition sMatrix :: "amp list list" where
  "sMatrix =
     [[\<lparr>re = 1, im = 0\<rparr>, \<lparr>re = 0, im = 0\<rparr>],
      [\<lparr>re = 0, im = 0\<rparr>, \<lparr>re = 0, im = 1\<rparr>]]"

definition tMatrix :: "amp list list" where
  "tMatrix =
     [[\<lparr>re = 1, im = 0\<rparr>, \<lparr>re = 0, im = 0\<rparr>],
      [\<lparr>re = 0, im = 0\<rparr>, \<lparr>re = cos (pi / 4), im = sin (pi / 4)\<rparr>]]"

section \<open>State vector engine\<close>

record qubitInit =
  init_value :: string
  phase :: real

text \<open>
  \<open>createInitialState\<close>, with the body of its loop first. \<open>Array(size)\<close> throws
  for \<open>size \<ge> 2^32\<close>; \<open>initialStates[i].value\<close> throws when the array has no
  entry \<open>i\<close>. The index computed by the loop is below \<open>size\<close>, so the final write
  is in range. An entry is \<open>{ value, phase }\<close>.
\<close>

definition basisBody :: "qubitInit list \<Rightarrow> nat \<Rightarrow> nat \<Rightarrow> error + nat" where
  "basisBody initialStates i basisStateIndex =
     (if i < length initialStates
      then Inr (if init_value (initialStates ! i) = ''1''
                then basisStateIndex OR js_shl1 i
                else basisStateIndex)
      else Inl TypeError)"

definition createInitialState :: "nat \<Rightarrow> qubitInit list \<Rightarrow> error + amp list" where
  "createInitialState numQubits initialStates =
     (if 32 \<le> numQubits then Inl RangeError
      else
        let size = 2 ^ numQubits;
            state = replicate size \<lparr>re = 0, im = 0\<rparr>
        in case forEach [0..<numQubits] (basisBody initialStates) 0 of
             Inl e \<Rightarrow> Inl e
           | Inr basisStateIndex \<Rightarrow> Inr (state[basisStateIndex := \<lparr>re = 1, im = 0\<rparr>]))"

text \<open>
  The body of the first loop of \<open>applySingleQubitGate\<close>, for the index \<open>i\<close>.
  \<open>state[i]\<close> and \<open>newState[flippedIndex]\<close> are \<open>undefined\<close> out of range, and
  the complex operations then throw.
\<close>

definition gateBody :: "amp list \<Rightarrow> amp list list \<Rightarrow> nat \<Rightarrow> nat \<Rightarrow> amp list \<Rightarrow> error + amp list" where
  "gateBody state gateMatrix qubit i newState =
     (let qubitValue = js_shr i qubit AND 1;
          flippedIndex = i XOR js_shl1 qubit
      in if \<not> i < length state \<or> \<not> flippedIndex < length newState then Inl TypeError
         else if qubitValue = 0 then
           let newState1 = newState[i := complexAdd (newState ! i)
                                 (complexMultiply (gateMatrix ! 0 ! 0) (state ! i))]
           in Inr (newState1[flippedIndex := complexAdd (newState1 ! flippedIndex)
                                 (complexMultiply (gateMatrix ! 0 ! 1) (state ! i))])
         else
           let newState1 = newState[flippedIndex := complexAdd (newState ! flippedIndex)
                                 (complexMultiply (gateMatrix ! 1 ! 0) (state ! i))]
           in Inr (newState1[i := complexAdd (newState1 ! i)
                                 (complexMultiply (gateMatrix ! 1 ! 1) (state ! i))]))"

text \<open>
  \<open>applySingleQubitGate\<close> mutates \<open>state\<close> in place; the model returns the new
  contents. The second loop copies \<open>newState[0..size)\<close> over \<open>state\<close> and leaves
  any further element of \<open>state\<close> alone.
\<close>

definition applySingleQubitGate :: "amp list \<Rightarrow> amp list list \<Rightarrow> nat \<Rightarrow> nat \<Rightarrow> error + amp list" where
  "applySingleQubitGate state gateMatrix qubit numQubits =
     (if 32 \<le> numQubits then Inl RangeError
      else
        let size = 2 ^ numQubits
        in case forEach [0..<size] (gateBody state gateMatrix qubit)
                  (replicate size \<lparr>re = 0, im = 0\<rparr>) of
             Inl e \<Rightarrow> Inl e
           | Inr newState \<Rightarrow> Inr (newState @ drop size state))"

section \<open>Circuit evaluator\<close>

text \<open>
  A gate is an object of the palette: \<open>{ id, name, description, color }\<close>, with the
  flags \<open>control\<close> and \<open>target\<close> on the multi-qubit ones (absent, hence falsy, on the
  others). A cell of the circuit is \<open>{ gate }\<close>, where \<open>gate\<close> is a gate or
  \<open>null\<close>; the circuit is an array of rows (one per qubit) of cells.
\<close>

record gate =
  gate_id :: string
  gate_name :: string
  gate_description :: string
  color :: string
  control :: bool
  target :: bool

type_synonym circuit = "gate option list list"

text \<open>The decimal text of a number, as a template literal prints a small integer.\<close>

fun showNat :: "nat \<Rightarrow> string" where
  "showNat n =
     (if n < 10 then [''0123456789'' ! n]
      else showNat (n div 10) @ [''0123456789'' ! (n mod 10)])"

text \<open>\<open>Array.prototype.join\<close> on an array of strings.\<close>

fun join :: "string \<Rightarrow> string list \<Rightarrow> string" where
  "join sep [] = []"
| "join sep [x] = x"
| "join sep (x # y # ys) = x @ sep @ join sep (y # ys)"

text \<open>\<open>circuit[row][col].gate\<close>: throws when the row or the cell is missing.\<close>

definition cellGate :: "circuit \<Rightarrow> nat \<Rightarrow> nat \<Rightarrow> error + gate option" where
  "cellGate circuit row col =
     (if row < length circuit \<and> col < length (circuit ! row)
      then Inr (circuit ! row ! col) else Inl TypeError)"

text \<open>
  The scan that sets \<open>hasAnyGates\<close>: the inner loop over the rows of one column stops
  at the first gate, and the outer loop over the columns stops after such a column.
\<close>

fun anyGateInRows :: "circuit \<Rightarrow> nat \<Rightarrow> nat list \<Rightarrow> error + bool" where
  "anyGateInRows circuit col [] = Inr False"
| "anyGateInRows circuit col (row # rows) =
     (case cellGate circuit row col of
        Inl e \<Rightarrow> Inl e
      | Inr (Some g) \<Rightarrow> Inr True
      | Inr None \<Rightarrow> anyGateInRows circuit col rows)"

fun anyGateInCols :: "circuit \<Rightarrow> nat \<Rightarrow> nat list \<Rightarrow> error + bool" where
  "anyGateInCols circuit numQubits [] = Inr False"
| "anyGateInCols circuit numQubits (col # cols) =
     (case anyGateInRows circuit col [0..<numQubits] of
        Inl e \<Rightarrow> Inl e
      | Inr True \<Rightarrow> Inr True
      | Inr False \<Rightarrow> anyGateInCols circuit numQubits cols)"

text \<open>
  The loop that collects the gates of a column: every cell whose gate is not \<open>null\<close>
  sets \<open>hasGatesInColumn\<close> and pushes \<open>{ qubit: row, gate }\<close>.
\<close>

definition collectColumn :: "circuit \<Rightarrow> nat \<Rightarrow> nat \<Rightarrow> error + (bool \<times> (nat \<times> gate) list)" where
  "collectColumn circuit numQubits col =
     forEach [0..<numQubits]
       (\<lambda>row (hasGatesInColumn, gatesApplied).
          case cellGate circuit row col of
            Inl e \<Rightarrow> Inl e
          | Inr None \<Rightarrow> Inr (hasGatesInColumn, gatesApplied)
          | Inr (Some g) \<Rightarrow> Inr (True, gatesApplied @ [(row, g)]))
       (False, [])"

text \<open>
  The \<open>switch\<close> on \<open>gate.id\<close>, on the pair of the state being built and the
  descriptions pushed so far.
\<close>

definition applyGate :: "nat \<Rightarrow> nat \<Rightarrow> gate \<Rightarrow> amp list \<times> string list \<Rightarrow> error + (amp list \<times> string list)" where
  "applyGate numQubits qubit g acc =
     (let newState = fst acc; gateDescriptions = snd acc;
          single = (\<lambda>gateMatrix text.
             case applySingleQubitGate newState gateMatrix qubit numQubits of
               Inl e \<Rightarrow> Inl e
             | Inr newState' \<Rightarrow> Inr (newState', gateDescriptions @ [text]))
      in if gate_id g = ''h'' then single hadamardMatrix (''Hadamard (H) to qubit '' @ showNat qubit)
         else if gate_id g = ''x'' then single xMatrix (''X gate to qubit '' @ showNat qubit)
         else if gate_id g = ''y'' then single yMatrix (''Y gate to qubit '' @ showNat qubit)
         else if gate_id g = ''z'' then single zMatrix (''Z gate to qubit '' @ showNat qubit)
         else if gate_id g = ''s'' then single sMatrix (''S gate to qubit '' @ showNat qubit)
         else if gate_id g = ''t'' then single tMatrix (''T gate to qubit '' @ showNat qubit)
         else if gate_id g = ''measure''
           then Inr (newState, gateDescriptions @ [''Measurement on qubit '' @ showNat qubit])
         else Inr (newState, gateDescriptions @ [gate_name g @ '' gate to qubit '' @ showNat qubit]))"

fun applyGates :: "nat \<Rightarrow> (nat \<times> gate) list \<Rightarrow> amp list \<times> string list \<Rightarrow> error + (amp list \<times> string list)" where
  "applyGates numQubits [] acc = Inr acc"
| "applyGates numQubits ((qubit, g) # rest) acc =
     (case applyGate numQubits qubit g acc of
        Inl e \<Rightarrow> Inl e
      | Inr acc' \<Rightarrow> applyGates numQubits rest acc')"

record simulationStep =
  step :: nat
  state :: "amp list"
  description :: string

text \<open>
  The body of the loop over the columns. \<open>JSON.parse(JSON.stringify(...))\<close> copies the
  previous state, so writing the new state leaves the earlier steps alone; the calls of
  \<open>debugState\<close> only print.
\<close>

definition columnBody :: "circuit \<Rightarrow> nat \<Rightarrow> nat \<Rightarrow> simulationStep list \<Rightarrow> error + simulationStep list" where
  "columnBody circuit numQubits col steps =
     (case collectColumn circuit numQubits col of
        Inl e \<Rightarrow> Inl e
      | Inr (hasGatesInColumn, gatesApplied) \<Rightarrow>
          if hasGatesInColumn then
            let prevState = state (steps ! (length steps - 1));
                newState = prevState
            in case applyGates numQubits gatesApplied (newState, []) of
                 Inl e \<Rightarrow> Inl e
               | Inr (newState', gateDescriptions) \<Rightarrow>
                   Inr (steps @ [\<lparr>step = length steps, state = newState',
                                  description = ''Applied '' @ join '', '' gateDescriptions\<rparr>])
          else Inr steps)"

text \<open>
  \<open>simulateCircuit\<close>. \<open>numQubits\<close> and \<open>maxDepth\<close> are state of the enclosing
  component, read by the function; they are parameters here.
\<close>

definition simulateCircuit :: "nat \<Rightarrow> nat \<Rightarrow> circuit \<Rightarrow> qubitInit list \<Rightarrow> error + simulationStep list" where
  "simulateCircuit numQubits maxDepth circuit initialStates =
     (case createInitialState numQubits initialStates of
        Inl e \<Rightarrow> Inl e
      | Inr initialState \<Rightarrow>
          let steps = [\<lparr>step = 0, state = initialState, description = ''Initial state''\<rparr>]
          in case anyGateInCols circuit numQubits [0..<maxDepth] of
               Inl e \<Rightarrow> Inl e
             | Inr hasAnyGates \<Rightarrow>
                 if \<not> hasAnyGates then Inr steps
                 else forEach [0..<maxDepth] (columnBody circuit numQubits) steps)"

section \<open>Density matrix, partial trace and expectation values\<close>

text \<open>
  \<open>calculateDensityMatrix\<close>: a zero matrix, then one assignment per entry.
\<close>

definition calculateDensityMatrix :: "amp list \<Rightarrow> amp list list" where
  "calculateDensityMatrix stateVector =
     (let size = length stateVector;
          densityMatrix = replicate size (replicate size \<lparr>re = 0, im = 0\<rparr>)
      in fold (\<lambda>i densityMatrix.
           fold (\<lambda>j densityMatrix.
             densityMatrix[i := (densityMatrix ! i)[j :=
               \<lparr>re = re (stateVector ! i) * re (stateVector ! j) + im (stateVector ! i) * im (stateVector ! j),
                im = im (stateVector ! i) * re (stateVector ! j) - re (stateVector ! i) * im (stateVector ! j)\<rparr>]])
             [0..<size] densityMatrix)
           [0..<size] densityMatrix)"

text \<open>
  \<open>mapToReducedIndex\<close>, the closure of \<open>calculatePartialTrace\<close>; the loop carries
  \<open>reducedIndex\<close> and \<open>bitPosition\<close>.
\<close>

definition mapToReducedIndex :: "nat \<Rightarrow> nat list \<Rightarrow> nat \<Rightarrow> nat" where
  "mapToReducedIndex numQubits traceOutQubits fullIndex =
     fst (fold (\<lambda>qubit (reducedIndex, bitPosition).
                  if qubit \<in> set traceOutQubits then (reducedIndex, bitPosition)
                  else ((if fullIndex AND js_shl1 qubit \<noteq> 0
                         then reducedIndex OR js_shl1 bitPosition else reducedIndex),
                        bitPosition + 1))
            [0..<numQubits] (0, 0))"

text \<open>The loop that decides \<open>shouldInclude\<close> for the pair \<open>(i, j)\<close>.\<close>

definition shouldInclude :: "nat list \<Rightarrow> nat \<Rightarrow> nat \<Rightarrow> bool" where
  "shouldInclude traceOutQubits i j =
     list_all (\<lambda>qubit. js_shr i qubit AND 1 = js_shr j qubit AND 1) traceOutQubits"

text \<open>
  The body of the inner loop of the partial trace. \<open>densityMatrix[i][j]\<close> and
  \<open>reducedMatrix[reducedI][reducedJ]\<close> are \<open>undefined\<close> out of range, and reading
  \<open>.re\<close> then throws.
\<close>

definition traceBody :: "amp list list \<Rightarrow> nat \<Rightarrow> nat list \<Rightarrow> nat \<Rightarrow> nat \<Rightarrow> amp list list \<Rightarrow> error + amp list list" where
  "traceBody densityMatrix numQubits traceOutQubits i j reducedMatrix =
     (if shouldInclude traceOutQubits i j then
        let reducedI = mapToReducedIndex numQubits traceOutQubits i;
            reducedJ = mapToReducedIndex numQubits traceOutQubits j
        in if reducedI < length reducedMatrix \<and> reducedJ < length (reducedMatrix ! reducedI)
              \<and> i < length densityMatrix \<and> j < length (densityMatrix ! i)
           then Inr (reducedMatrix[reducedI := (reducedMatrix ! reducedI)[reducedJ :=
                  \<lparr>re = re (reducedMatrix ! reducedI ! reducedJ) + re (densityMatrix ! i ! j),
                   im = im (reducedMatrix ! reducedI ! reducedJ) + im (densityMatrix ! i ! j)\<rparr>]])
           else Inl TypeError
      else Inr reducedMatrix)"

text \<open>
  \<open>calculatePartialTrace\<close>. When more qubits are traced out than there are,
  \<open>Math.pow(2, remainingQubits)\<close> is a fraction and \<open>Array\<close> throws, as it does for
  a length of \<open>2^32\<close> or more.
\<close>

definition calculatePartialTrace :: "amp list list \<Rightarrow> nat \<Rightarrow> nat list \<Rightarrow> error + amp list list" where
  "calculatePartialTrace densityMatrix numQubits traceOutQubits =
     (let totalDim = length densityMatrix
      in if numQubits < length traceOutQubits then Inl RangeError
         else
           let remainingQubits = numQubits - length traceOutQubits
           in if 32 \<le> remainingQubits then Inl RangeError
              else
                let reducedDim = 2 ^ remainingQubits;
                    reducedMatrix = replicate reducedDim (replicate reducedDim \<lparr>re = 0, im = 0\<rparr>)
                in forEach [0..<totalDim]
                     (\<lambda>i. forEach [0..<totalDim]
                        (traceBody densityMatrix numQubits traceOutQubits i))
                     reducedMatrix)"

record expectationValue =
  qubit :: nat
  z :: real


section \<open>Auxiliary notions for the proofs\<close>

definition czero :: amp where
  "czero = \<lparr>re = 0, im = 0\<rparr>"

text \<open>
  What the iteration for the index \<open>j\<close> adds to entry \<open>j\<close> of \<open>newState\<close>, what
  the iteration for the partner of \<open>j\<close> adds to entry \<open>j\<close>, and entry \<open>j\<close> after
  the iterations for the indices below \<open>k\<close>.
\<close>

definition ownTerm :: "amp list \<Rightarrow> amp list list \<Rightarrow> nat \<Rightarrow> nat \<Rightarrow> amp" where
  "ownTerm psi M q j = complexMultiply (if bit j q then M ! 1 ! 1 else M ! 0 ! 0) (psi ! j)"

definition crossTerm :: "amp list \<Rightarrow> amp list list \<Rightarrow> nat \<Rightarrow> nat \<Rightarrow> amp" where
  "crossTerm psi M q j =
     complexMultiply (if bit j q then M ! 0 ! 1 else M ! 1 ! 0) (psi ! (j XOR 2 ^ q))"

definition partialState :: "amp list \<Rightarrow> amp list list \<Rightarrow> nat \<Rightarrow> nat \<Rightarrow> nat \<Rightarrow> amp" where
  "partialState psi M q k j =
     complexAdd (if j < k then ownTerm psi M q j else czero)
                (if j XOR 2 ^ q < k then crossTerm psi M q j else czero)"

text \<open>
  The conjugate, the squared modulus of an amplitude, the sum of the squared moduli of a
  state vector (1 for a normalized one) and the trace of a matrix.
\<close>

definition conjugate :: "amp \<Rightarrow> amp" where
  "conjugate a = \<lparr>re = re a, im = - im a\<rparr>"

definition prob :: "amp \<Rightarrow> real" where
  "prob a = re a * re a + im a * im a"

definition normSq :: "amp list \<Rightarrow> real" where
  "normSq psi = sum_list (map prob psi)"

definition matrixTrace :: "amp list list \<Rightarrow> amp" where
  "matrixTrace m = \<lparr>re = sum_list (map (\<lambda>i. re (m ! i ! i)) [0..<length m]),
                    im = sum_list (map (\<lambda>i. im (m ! i ! i)) [0..<length m])\<rparr>"

text \<open>The entry that \<open>calculateDensityMatrix\<close> assigns at \<open>(i, j)\<close>.\<close>

definition rhoEntry :: "amp list \<Rightarrow> nat \<Rightarrow> nat \<Rightarrow> amp" where
  "rhoEntry psi i j =
     \<lparr>re = re (psi ! i) * re (psi ! j) + im (psi ! i) * im (psi ! j),
      im = im (psi ! i) * re (psi ! j) - re (psi ! i) * im (psi ! j)\<rparr>"

text \<open>
  A circuit of \<open>n\<close> rows of \<open>d\<close> cells each; the gate placements of a column, by
  ascending row; whether a column holds a gate.
\<close>

definition wellFormed :: "circuit \<Rightarrow> nat \<Rightarrow> nat \<Rightarrow> bool" where
  "wellFormed circuit n d = (length circuit = n \<and> list_all (\<lambda>row. length row = d) circuit)"

definition columnGates :: "circuit \<Rightarrow> nat \<Rightarrow> nat \<Rightarrow> (nat \<times> gate) list" where
  "columnGates circuit n col =
     concat (map (\<lambda>row. case circuit ! row ! col of None \<Rightarrow> [] | Some g \<Rightarrow> [(row, g)]) [0..<n])"

definition columnHasGate :: "circuit \<Rightarrow> nat \<Rightarrow> nat \<Rightarrow> bool" where
  "columnHasGate circuit n col = list_ex (\<lambda>row. circuit ! row ! col \<noteq> None) [0..<n]"

text \<open>
  The history after the initial step, as the specification describes it: one step for
  each column of \<open>cols\<close> in order, numbered from \<open>k\<close>, whose state is the state of the
  step before with the gates of the column applied by ascending row, and whose description
  joins the descriptions of these gates.
\<close>

fun laterSteps :: "nat \<Rightarrow> circuit \<Rightarrow> nat list \<Rightarrow> amp list \<Rightarrow> nat \<Rightarrow> error + simulationStep list" where
  "laterSteps n circuit [] prev k = Inr []"
| "laterSteps n circuit (col # cols) prev k =
     (case applyGates n (columnGates circuit n col) (prev, []) of
        Inl e \<Rightarrow> Inl e
      | Inr (s, ds) \<Rightarrow>
          (case laterSteps n circuit cols s (Suc k) of
             Inl e \<Rightarrow> Inl e
           | Inr rest \<Rightarrow>
               Inr (\<lparr>step = k, state = s, description = ''Applied '' @ join '', '' ds\<rparr> # rest)))"

text \<open>
  The pair \<open>(reducedIndex, bitPosition)\<close> of \<open>mapToReducedIndex\<close> after the qubits
  below \<open>k\<close>, and the number of qubits below \<open>k\<close> that are kept.
\<close>

definition mapLoop :: "nat list \<Rightarrow> nat \<Rightarrow> nat \<Rightarrow> nat \<times> nat" where
  "mapLoop S i k =
     fold (\<lambda>qubit (reducedIndex, bitPosition).
                  if qubit \<in> set S then (reducedIndex, bitPosition)
                  else ((if i AND js_shl1 qubit \<noteq> 0
                         then reducedIndex OR js_shl1 bitPosition else reducedIndex),
                        bitPosition + 1))
       [0..<k] (0, 0)"

definition keptBelow :: "nat list \<Rightarrow> nat \<Rightarrow> nat" where
  "keptBelow S k = length (filter (\<lambda>q. q \<notin> set S) [0..<k])"

text \<open>
  A square matrix of dimension \<open>d\<close>; what the pair \<open>(i, j)\<close> adds to the entry
  \<open>(a, b)\<close> of the reduced matrix; the sum of the amplitudes \<open>f 0, ..., f (k - 1)\<close>.
\<close>

definition isSquare :: "nat \<Rightarrow> amp list list \<Rightarrow> bool" where
  "isSquare d m = (length m = d \<and> list_all (\<lambda>row. length row = d) m)"

definition contrib :: "amp list list \<Rightarrow> nat \<Rightarrow> nat list \<Rightarrow> nat \<Rightarrow> nat \<Rightarrow> nat \<Rightarrow> nat \<Rightarrow> amp" where
  "contrib rho n S a b i j =
     (if shouldInclude S i j \<and> mapToReducedIndex n S i = a \<and> mapToReducedIndex n S j = b
      then rho ! i ! j else czero)"

definition asum :: "(nat \<Rightarrow> amp) \<Rightarrow> nat \<Rightarrow> amp" where
  "asum f k = \<lparr>re = (\<Sum>x<k. re (f x)), im = (\<Sum>x<k. im (f x))\<rparr>"

section \<open>Loops and bit operations\<close>

lemma forEach_append:
  "forEach (xs @ ys) body a = (case forEach xs body a of Inl e \<Rightarrow> Inl e | Inr a' \<Rightarrow> forEach ys body a')"
  by (induction xs arbitrary: a) (auto split: sum.splits)

lemma forEach_Suc:
  "forEach [0..<Suc k] body a = (case forEach [0..<k] body a of Inl e \<Rightarrow> Inl e | Inr a' \<Rightarrow> body k a')"
  by (simp add: forEach_append split: sum.splits)

lemma js_shl1_small: "k < 32 \<Longrightarrow> js_shl1 k = 2 ^ k"
  by (simp add: js_shl1_def)

lemma js_shr_bit: "k < 32 \<Longrightarrow> js_shr i k AND 1 = (if bit i k then 1 else 0)"
  by (simp add: js_shr_def bit_iff_odd_drop_bit and_one_eq mod_2_eq_odd)

lemma js_shr_mod2: "k < 32 \<Longrightarrow> js_shr i k mod 2 = (if bit i k then Suc 0 else 0)"
  by (simp add: js_shr_def bit_iff_odd_drop_bit mod_2_eq_odd)

lemma xor_pow_lt:
  fixes i :: nat
  assumes "q < n" "i < 2 ^ n"
  shows "i XOR 2 ^ q < 2 ^ n"
proof -
  have "take_bit n i = i" "take_bit n ((2::nat) ^ q) = 2 ^ q"
    using assms by (simp_all add: take_bit_nat_eq_self)
  then have "take_bit n (i XOR 2 ^ q) = i XOR 2 ^ q"
    by (simp only: take_bit_xor)
  then show ?thesis
    by (simp only: take_bit_nat_eq_self_iff)
qed

lemma bit_xor_pow:
  fixes i :: nat
  shows "bit (i XOR 2 ^ q) k = (if k = q then \<not> bit i k else bit i k)"
  by (auto simp add: bit_xor_iff bit_exp_iff)

lemma xor_pow_twice:
  fixes i :: nat
  shows "(i XOR 2 ^ q) XOR 2 ^ q = i"
  by (rule bit_eqI) (simp add: bit_xor_pow)

lemma xor_pow_neq:
  fixes i :: nat
  shows "i XOR 2 ^ q \<noteq> i"
  by (metis bit_xor_pow)

lemma forEach_cong:
  "(\<And>i a. i \<in> set xs \<Longrightarrow> f i a = g i a) \<Longrightarrow> forEach xs f a = forEach xs g a"
  by (induction xs arbitrary: a) (auto split: sum.splits)

lemma or_pow_lt:
  fixes i :: nat
  assumes "q < n" "i < 2 ^ n"
  shows "i OR 2 ^ q < 2 ^ n"
proof -
  have "take_bit n i = i" "take_bit n ((2::nat) ^ q) = 2 ^ q"
    using assms by (simp_all add: take_bit_nat_eq_self)
  then have "take_bit n (i OR 2 ^ q) = i OR 2 ^ q"
    by (simp only: take_bit_or)
  then show ?thesis
    by (simp only: take_bit_nat_eq_self_iff)
qed

section \<open>Applying a single-qubit gate\<close>

lemma complexAdd_czero [simp]: "complexAdd czero a = a" "complexAdd a czero = a"
  by (simp_all add: complexAdd_def czero_def)

lemma complexAdd_commute: "complexAdd a b = complexAdd b a"
  by (simp add: complexAdd_def)

lemma gate_loop:
  assumes n32: "n < 32" and q: "q < n"
    and len: "2 ^ n \<le> length psi"
  shows "k \<le> 2 ^ n \<Longrightarrow>
     forEach [0..<k] (gateBody psi M q) (replicate (2 ^ n) \<lparr>re = 0, im = 0\<rparr>)
       = Inr (map (partialState psi M q k) [0..<2 ^ n])"
proof (induction k)
  case 0
  show ?case
    by (simp add: partialState_def map_replicate_const czero_def complexAdd_def)
next
  case (Suc k)
  let ?f = "k XOR 2 ^ q"
  have q32: "q < 32" using n32 q by simp
  have k: "k < 2 ^ n" using Suc.prems by simp
  have f: "?f < 2 ^ n" using q k by (rule xor_pow_lt)
  have fk: "?f \<noteq> k" by (rule xor_pow_neq)
  have IH: "forEach [0..<k] (gateBody psi M q) (replicate (2 ^ n) \<lparr>re = 0, im = 0\<rparr>)
       = Inr (map (partialState psi M q k) [0..<2 ^ n])"
    using Suc by simp
  have body: "gateBody psi M q k (map (partialState psi M q k) [0..<2 ^ n])
      = Inr (map (partialState psi M q (Suc k)) [0..<2 ^ n])"
  proof (cases "bit k q")
    case False
    have "gateBody psi M q k (map (partialState psi M q k) [0..<2 ^ n])
       = Inr ((map (partialState psi M q k) [0..<2 ^ n])
           [k := complexAdd (partialState psi M q k k) (ownTerm psi M q k),
            ?f := complexAdd (partialState psi M q k ?f) (crossTerm psi M q ?f)])"
      using False k f fk len q32
      by (simp add: gateBody_def Let_def js_shr_bit js_shr_mod2 js_shl1_small ownTerm_def crossTerm_def bit_xor_pow xor_pow_twice)
    also have "\<dots> = Inr (map (partialState psi M q (Suc k)) [0..<2 ^ n])"
      apply (simp)
      apply (rule nth_equalityI)
       apply simp
      using k f fk
      apply (auto simp add: nth_list_update partialState_def xor_pow_twice less_Suc_eq complexAdd_commute)
      done
    finally show ?thesis .
  next
    case True
    have "gateBody psi M q k (map (partialState psi M q k) [0..<2 ^ n])
       = Inr ((map (partialState psi M q k) [0..<2 ^ n])
           [?f := complexAdd (partialState psi M q k ?f) (crossTerm psi M q ?f),
            k := complexAdd (partialState psi M q k k) (ownTerm psi M q k)])"
      using True k f fk len q32
      by (simp add: gateBody_def Let_def js_shr_bit js_shr_mod2 js_shl1_small ownTerm_def crossTerm_def bit_xor_pow xor_pow_twice)
    also have "\<dots> = Inr (map (partialState psi M q (Suc k)) [0..<2 ^ n])"
      apply (simp)
      apply (rule nth_equalityI)
       apply simp
      using k f fk
      apply (auto simp add: nth_list_update partialState_def xor_pow_twice less_Suc_eq complexAdd_commute)
      done
    finally show ?thesis .
  qed
  show ?case
    by (simp only: forEach_Suc IH sum.case body)
qed

lemma gate_result:
  assumes n32: "n < 32" and q: "q < n"
    and len: "2 ^ n \<le> length psi"
  shows "applySingleQubitGate psi M q n
       = Inr (map (partialState psi M q (2 ^ n)) [0..<2 ^ n] @ drop (2 ^ n) psi)"
  using n32 gate_loop [OF n32 q len order_refl, of M]
  by (simp add: applySingleQubitGate_def Let_def)





section \<open>The initial state\<close>

lemma basis_loop_ok:
  "k \<le> length inits \<Longrightarrow> k \<le> 32 \<Longrightarrow>
   \<exists>idx. forEach [0..<k] (basisBody inits) 0 = Inr idx \<and> idx < 2 ^ k"
proof (induction k)
  case 0
  show ?case by simp
next
  case (Suc k)
  then obtain idx where r: "forEach [0..<k] (basisBody inits) 0 = Inr idx" and b: "idx < 2 ^ k"
    by auto
  have idx: "idx < 2 ^ Suc k" using b by simp
  have orlt: "idx OR 2 ^ k < 2 ^ Suc k"
    by (rule or_pow_lt [OF _ idx]) simp
  have st: "basisBody inits k idx
      = Inr (if init_value (inits ! k) = ''1'' then idx OR 2 ^ k else idx)"
    using Suc.prems by (simp add: basisBody_def js_shl1_small)
  have "forEach [0..<Suc k] (basisBody inits) 0
      = Inr (if init_value (inits ! k) = ''1'' then idx OR 2 ^ k else idx)"
    by (simp only: forEach_Suc r sum.case st)
  moreover have "(if init_value (inits ! k) = ''1'' then idx OR 2 ^ k else idx) < 2 ^ Suc k"
    using idx orlt by simp
  ultimately show ?case by blast
qed

lemma basis_loop_short:
  "length inits < k \<Longrightarrow> k \<le> 32 \<Longrightarrow> forEach [0..<k] (basisBody inits) 0 = Inl TypeError"
proof (induction k)
  case 0
  then show ?case by simp
next
  case (Suc k)
  show ?case
  proof (cases "length inits < k")
    case True
    with Suc show ?thesis by (simp add: forEach_append)
  next
    case False
    with Suc.prems have "k = length inits" by simp
    then obtain idx where r: "forEach [0..<k] (basisBody inits) 0 = Inr idx"
      using basis_loop_ok [of k inits] Suc.prems by auto
    have st: "basisBody inits k idx = Inl TypeError"
      using \<open>k = length inits\<close> by (simp add: basisBody_def)
    show ?thesis
      by (simp only: forEach_Suc r sum.case st)
  qed
qed

lemma createInitialState_alt:
  "createInitialState n inits =
     (if 32 \<le> n then Inl RangeError
      else case forEach [0..<n] (basisBody inits) 0 of
             Inl e \<Rightarrow> Inl e
           | Inr idx \<Rightarrow> Inr ((replicate (2 ^ n) \<lparr>re = 0, im = 0\<rparr>)[idx := \<lparr>re = 1, im = 0\<rparr>]))"
  by (simp add: createInitialState_def Let_def)

lemma createInitialState_ok:
  assumes "n < 32" "n \<le> length inits"
  shows "\<exists>idx < 2 ^ n. createInitialState n inits
           = Inr ((replicate (2 ^ n) \<lparr>re = 0, im = 0\<rparr>)[idx := \<lparr>re = 1, im = 0\<rparr>])"
  using assms basis_loop_ok [of n inits]
  by (auto simp add: createInitialState_alt)

lemma createInitialState_take:
  assumes "n \<le> length inits"
  shows "createInitialState n (take n inits) = createInitialState n inits"
proof -
  have "forEach [0..<n] (basisBody (take n inits)) 0 = forEach [0..<n] (basisBody inits) 0"
    using assms by (intro forEach_cong) (simp add: basisBody_def)
  then show ?thesis by (simp add: createInitialState_alt)
qed

text \<open>
  Claim C3, as the code has it. \<open>createInitialState\<close> does not compare the length of
  \<open>initialStates\<close> with \<open>n\<close>, and the program has no \<open>ConfigurationError\<close>. With
  fewer than \<open>n\<close> entries the call throws the \<open>TypeError\<close> of reading the missing
  entry; with more than \<open>n\<close> entries it returns a state vector of \<open>2^n\<close> amplitudes,
  the one of the first \<open>n\<close> entries.
\<close>

theorem createInitialState_length_mismatch:
  assumes "length inits \<noteq> n" and "n < 32"
  shows "if length inits < n
         then createInitialState n inits = Inl TypeError
         else (\<exists>psi. createInitialState n inits = Inr psi \<and> length psi = 2 ^ n \<and>
                 createInitialState n (take n inits) = Inr psi)"
proof (cases "length inits < n")
  case True
  with assms show ?thesis
    by (simp add: createInitialState_alt basis_loop_short)
next
  case False
  then have le: "n \<le> length inits" by simp
  obtain idx where "createInitialState n inits
           = Inr ((replicate (2 ^ n) \<lparr>re = 0, im = 0\<rparr>)[idx := \<lparr>re = 1, im = 0\<rparr>])"
    using createInitialState_ok [OF assms(2) le] by blast
  with False le show ?thesis
    by (simp add: createInitialState_take)
qed

theorem createInitialState_length_mismatch_witness:
  "length [\<lparr>init_value = ''0'', phase = 0\<rparr>, \<lparr>init_value = ''1'', phase = 0\<rparr>] \<noteq> (1::nat) \<and> (1::nat) < 32 \<and>
   (\<exists>psi. createInitialState 1 [\<lparr>init_value = ''0'', phase = 0\<rparr>, \<lparr>init_value = ''1'', phase = 0\<rparr>] = Inr psi \<and>
          length psi = 2 ^ 1)"
  using createInitialState_length_mismatch
    [of "[\<lparr>init_value = ''0'', phase = 0\<rparr>, \<lparr>init_value = ''1'', phase = 0\<rparr>]" 1]
  by auto

text \<open>
  Claim C3 as stated fails: for \<open>n = 1\<close> and two entries the call returns a state
  vector.
\<close>

theorem createInitialState_no_length_check_counterexample:
  "length [\<lparr>init_value = ''0'', phase = 0\<rparr>, \<lparr>init_value = ''1'', phase = 0\<rparr>] \<noteq> (1::nat) \<and>
   createInitialState 1 [\<lparr>init_value = ''0'', phase = 0\<rparr>, \<lparr>init_value = ''1'', phase = 0\<rparr>]
     = Inr [\<lparr>re = 1, im = 0\<rparr>, \<lparr>re = 0, im = 0\<rparr>]"
  by (simp add: createInitialState_def basisBody_def upt_rec numeral_2_eq_2)


section \<open>Gates that are not executed\<close>

text \<open>
  Claim C5. A gate whose id is none of \<open>h, x, y, z, s, t\<close> (so \<open>measure\<close>, the
  multi-qubit ids \<open>cx, cz, swap, cp\<close> and any other id) leaves the state vector as it
  is when the evaluator applies it, and pushes exactly one description: the measurement
  text for \<open>measure\<close>, and the gate's name followed by \<open>gate to qubit q\<close> otherwise.
\<close>

theorem applyGate_other_id:
  assumes "gate_id g \<notin> {''h'', ''x'', ''y'', ''z'', ''s'', ''t''}"
  shows "applyGate n q g (psi, descs) =
           Inr (psi, descs @ [if gate_id g = ''measure'' then ''Measurement on qubit '' @ showNat q
                              else gate_name g @ '' gate to qubit '' @ showNat q])"
  using assms by (simp add: applyGate_def Let_def)

theorem applyGate_other_id_witness:
  "gate_id \<lparr>gate_id = ''cx'', gate_name = ''CX'', gate_description = ''CNOT'', color = ''#16a085'',
            control = True, target = True\<rparr> \<notin> {''h'', ''x'', ''y'', ''z'', ''s'', ''t''} \<and>
   applyGate 2 1 \<lparr>gate_id = ''cx'', gate_name = ''CX'', gate_description = ''CNOT'', color = ''#16a085'',
            control = True, target = True\<rparr> ([\<lparr>re = 1, im = 0\<rparr>, \<lparr>re = 0, im = 0\<rparr>, \<lparr>re = 0, im = 0\<rparr>, \<lparr>re = 0, im = 0\<rparr>], [])
     = Inr ([\<lparr>re = 1, im = 0\<rparr>, \<lparr>re = 0, im = 0\<rparr>, \<lparr>re = 0, im = 0\<rparr>, \<lparr>re = 0, im = 0\<rparr>], [''CX gate to qubit 1''])"
  using applyGate_other_id [of "\<lparr>gate_id = ''cx'', gate_name = ''CX'', gate_description = ''CNOT'', color = ''#16a085'',
            control = True, target = True\<rparr>" 2 1 "[\<lparr>re = 1, im = 0\<rparr>, \<lparr>re = 0, im = 0\<rparr>, \<lparr>re = 0, im = 0\<rparr>, \<lparr>re = 0, im = 0\<rparr>]" "[]"]
  by simp

section \<open>Density matrix\<close>

lemma fold_assign:
  "k \<le> length xs \<Longrightarrow> fold (\<lambda>j r. r[j := g j]) [0..<k] xs = map g [0..<k] @ drop k xs"
proof (induction k)
  case 0
  show ?case by simp
next
  case (Suc k)
  then have k: "k < length xs" by simp
  have "(map g [0..<k] @ drop k xs)[k := g k] = map g [0..<k] @ g k # drop (Suc k) xs"
    using k by (simp add: list_update_append Cons_nth_drop_Suc [symmetric])
  with Suc show ?case by simp
qed

lemma fold_assign_row:
  "i < length m \<Longrightarrow>
   fold (\<lambda>j d. d[i := (d ! i)[j := g j]]) [0..<k] m
     = m[i := fold (\<lambda>j r. r[j := g j]) [0..<k] (m ! i)]"
  by (induction k) simp_all

lemma density_rows:
  "k \<le> n \<Longrightarrow>
   fold (\<lambda>i d. fold (\<lambda>j d. d[i := (d ! i)[j := rhoEntry psi i j]]) [0..<n] d) [0..<k]
        (replicate n (replicate n \<lparr>re = 0, im = 0\<rparr>))
     = map (\<lambda>i. map (rhoEntry psi i) [0..<n]) [0..<k] @ replicate (n - k) (replicate n \<lparr>re = 0, im = 0\<rparr>)"
proof (induction k)
  case 0
  show ?case by simp
next
  case (Suc k)
  then have k: "k < n" by simp
  let ?d = "map (\<lambda>i. map (rhoEntry psi i) [0..<n]) [0..<k] @ replicate (n - k) (replicate n \<lparr>re = 0, im = 0\<rparr>)"
  have nk: "n - k = Suc (n - Suc k)" using k by simp
  have row: "?d ! k = replicate n \<lparr>re = 0, im = 0\<rparr>"
    using k by (simp add: nth_append)
  have "fold (\<lambda>j d. d[k := (d ! k)[j := rhoEntry psi k j]]) [0..<n] ?d
      = ?d[k := map (rhoEntry psi k) [0..<n]]"
    using k by (simp add: fold_assign_row row fold_assign)
  also have "\<dots> = map (\<lambda>i. map (rhoEntry psi i) [0..<n]) [0..<Suc k]
                  @ replicate (n - Suc k) (replicate n \<lparr>re = 0, im = 0\<rparr>)"
    using k by (simp add: list_update_append nk)
  finally show ?case
    using Suc by simp
qed

lemma calculateDensityMatrix_eq:
  "calculateDensityMatrix psi
     = map (\<lambda>i. map (rhoEntry psi i) [0..<length psi]) [0..<length psi]"
  using density_rows [of "length psi" "length psi" psi]
  by (simp add: calculateDensityMatrix_def Let_def rhoEntry_def [abs_def])

text \<open>
  Claim C6. The matrix \<open>rho\<close> returned by \<open>calculateDensityMatrix\<close> for \<open>psi\<close> is
  square of the size of \<open>psi\<close>, its entry \<open>(i, j)\<close> is \<open>psi[i]\<close> times the conjugate of
  \<open>psi[j]\<close>, it is Hermitian, and its trace is the sum of the \<open>|psi[i]|^2\<close>: 1 when
  \<open>psi\<close> is normalized.
\<close>

theorem calculateDensityMatrix_outer_product:
  assumes "rho = calculateDensityMatrix psi"
  shows "length rho = length psi \<and>
         (\<forall>i < length psi. length (rho ! i) = length psi) \<and>
         (\<forall>i < length psi. \<forall>j < length psi.
            rho ! i ! j = complexMultiply (psi ! i) (conjugate (psi ! j)) \<and>
            rho ! j ! i = conjugate (rho ! i ! j)) \<and>
         matrixTrace rho = \<lparr>re = normSq psi, im = 0\<rparr> \<and>
         (normSq psi = 1 \<longrightarrow> matrixTrace rho = \<lparr>re = 1, im = 0\<rparr>)"
proof -
  have rho: "rho = map (\<lambda>i. map (rhoEntry psi i) [0..<length psi]) [0..<length psi]"
    using assms by (simp add: calculateDensityMatrix_eq)
  have diag_re: "map (\<lambda>i. re (rho ! i ! i)) [0..<length psi] = map prob psi"
    by (rule nth_equalityI) (simp_all add: rho rhoEntry_def prob_def)
  have diag_im: "map (\<lambda>i. im (rho ! i ! i)) [0..<length psi] = map (\<lambda>a. 0) psi"
    by (rule nth_equalityI) (simp_all add: rho rhoEntry_def)
  have len: "length rho = length psi"
    by (simp add: rho)
  have tr: "matrixTrace rho = \<lparr>re = normSq psi, im = 0\<rparr>"
    by (simp add: matrixTrace_def len diag_re diag_im normSq_def)
  show ?thesis
    using tr by (simp add: rho rhoEntry_def complexMultiply_def conjugate_def)
qed

theorem calculateDensityMatrix_outer_product_witness:
  "calculateDensityMatrix [\<lparr>re = 0, im = 1\<rparr>, \<lparr>re = 0, im = 0\<rparr>]
     = [[\<lparr>re = 1, im = 0\<rparr>, \<lparr>re = 0, im = 0\<rparr>], [\<lparr>re = 0, im = 0\<rparr>, \<lparr>re = 0, im = 0\<rparr>]] \<and>
   normSq [\<lparr>re = 0, im = 1\<rparr>, \<lparr>re = 0, im = 0\<rparr>] = 1 \<and>
   matrixTrace (calculateDensityMatrix [\<lparr>re = 0, im = 1\<rparr>, \<lparr>re = 0, im = 0\<rparr>]) = \<lparr>re = 1, im = 0\<rparr>"
proof -
  have n: "normSq [\<lparr>re = 0, im = 1\<rparr>, \<lparr>re = 0, im = 0\<rparr>] = 1"
    by (simp add: normSq_def prob_def)
  have d: "calculateDensityMatrix [\<lparr>re = 0, im = 1\<rparr>, \<lparr>re = 0, im = 0\<rparr>]
     = [[\<lparr>re = 1, im = 0\<rparr>, \<lparr>re = 0, im = 0\<rparr>], [\<lparr>re = 0, im = 0\<rparr>, \<lparr>re = 0, im = 0\<rparr>]]"
    by (simp add: calculateDensityMatrix_def upt_rec numeral_2_eq_2)
  from calculateDensityMatrix_outer_product [OF refl, of "[\<lparr>re = 0, im = 1\<rparr>, \<lparr>re = 0, im = 0\<rparr>]"] n
  have "matrixTrace (calculateDensityMatrix [\<lparr>re = 0, im = 1\<rparr>, \<lparr>re = 0, im = 0\<rparr>]) = \<lparr>re = 1, im = 0\<rparr>"
    by blast
  with n d show ?thesis by simp
qed

section \<open>Expectation values\<close>










section \<open>Applying the gates of a column\<close>

lemma applyGate_ok:
  assumes n32: "n < 32" and q: "q < n" and len: "length psi = 2 ^ n"
  shows "\<exists>psi' dsc. applyGate n q g (psi, descs) = Inr (psi', descs @ [dsc]) \<and>
           length psi' = 2 ^ n"
proof -
  have single: "\<exists>psi'. applySingleQubitGate psi M q n = Inr psi' \<and> length psi' = 2 ^ n" for M
    using gate_result [OF n32 q, of psi M] len by simp
  consider "gate_id g = ''h''" | "gate_id g = ''x''" | "gate_id g = ''y''" | "gate_id g = ''z''"
    | "gate_id g = ''s''" | "gate_id g = ''t''"
    | "gate_id g \<notin> {''h'', ''x'', ''y'', ''z'', ''s'', ''t''}"
    by auto
  then show ?thesis
  proof cases
    case 1
    with single [of hadamardMatrix] show ?thesis
      by (auto simp add: applyGate_def Let_def)
  next
    case 2
    with single [of xMatrix] show ?thesis
      by (auto simp add: applyGate_def Let_def)
  next
    case 3
    with single [of yMatrix] show ?thesis
      by (auto simp add: applyGate_def Let_def)
  next
    case 4
    with single [of zMatrix] show ?thesis
      by (auto simp add: applyGate_def Let_def)
  next
    case 5
    with single [of sMatrix] show ?thesis
      by (auto simp add: applyGate_def Let_def)
  next
    case 6
    with single [of tMatrix] show ?thesis
      by (auto simp add: applyGate_def Let_def)
  next
    case 7
    with len show ?thesis
      by (simp add: applyGate_def Let_def)
  qed
qed

lemma applyGates_ok:
  assumes n32: "n < 32"
  shows "length psi = 2 ^ n \<Longrightarrow> \<forall>p \<in> set gs. fst p < n \<Longrightarrow>
         \<exists>psi' dscs. applyGates n gs (psi, descs) = Inr (psi', descs @ dscs) \<and>
           length dscs = length gs \<and> length psi' = 2 ^ n"
proof (induction gs arbitrary: psi descs)
  case Nil
  then show ?case by simp
next
  case (Cons p gs)
  obtain q g where p: "p = (q, g)" by (cases p)
  with Cons.prems have q: "q < n" by simp
  obtain psi1 dsc where
    a: "applyGate n q g (psi, descs) = Inr (psi1, descs @ [dsc])"
    and l1: "length psi1 = 2 ^ n"
    using applyGate_ok [OF n32 q Cons.prems(1)] by blast
  from Cons.prems have rest: "\<forall>p \<in> set gs. fst p < n" by simp
  obtain psi' dscs where
    b: "applyGates n gs (psi1, descs @ [dsc]) = Inr (psi', (descs @ [dsc]) @ dscs)"
    and l: "length dscs = length gs" "length psi' = 2 ^ n"
    using Cons.IH [OF l1 rest] by blast
  have "applyGates n (p # gs) (psi, descs) = Inr (psi', descs @ (dsc # dscs))"
    by (simp add: p a b)
  moreover have "length (dsc # dscs) = length (p # gs)" using l by simp
  ultimately show ?case
    using l by metis
qed

section \<open>The history of a simulation\<close>

lemma cellGate_ok:
  "wellFormed circuit n d \<Longrightarrow> row < n \<Longrightarrow> col < d \<Longrightarrow>
   cellGate circuit row col = Inr (circuit ! row ! col)"
  by (simp add: wellFormed_def cellGate_def list_all_length)

lemma columnGates_Suc:
  "columnGates circuit (Suc k) col
     = columnGates circuit k col @ (case circuit ! k ! col of None \<Rightarrow> [] | Some g \<Rightarrow> [(k, g)])"
  by (simp add: columnGates_def)

lemma columnGates_rows: "\<forall>p \<in> set (columnGates circuit n col). fst p < n"
  by (auto simp add: columnGates_def split: option.splits)

lemma columnHasGate_iff: "columnHasGate circuit n col = (columnGates circuit n col \<noteq> [])"
  by (auto simp add: columnHasGate_def columnGates_def list_ex_iff split: option.splits)

lemma collect_loop:
  assumes wf: "wellFormed circuit n d" and col: "col < d"
  shows "k \<le> n \<Longrightarrow>
     forEach [0..<k]
       (\<lambda>row (hasGatesInColumn, gatesApplied).
          case cellGate circuit row col of
            Inl e \<Rightarrow> Inl e
          | Inr None \<Rightarrow> Inr (hasGatesInColumn, gatesApplied)
          | Inr (Some g) \<Rightarrow> Inr (True, gatesApplied @ [(row, g)]))
       (False, [])
     = Inr (columnGates circuit k col \<noteq> [], columnGates circuit k col)"
proof (induction k)
  case 0
  show ?case by (simp add: columnGates_def)
next
  case (Suc k)
  then have k: "k < n" by simp
  have IH: "forEach [0..<k]
       (\<lambda>row (hasGatesInColumn, gatesApplied).
          case cellGate circuit row col of
            Inl e \<Rightarrow> Inl e
          | Inr None \<Rightarrow> Inr (hasGatesInColumn, gatesApplied)
          | Inr (Some g) \<Rightarrow> Inr (True, gatesApplied @ [(row, g)]))
       (False, [])
     = Inr (columnGates circuit k col \<noteq> [], columnGates circuit k col)"
    using Suc by simp
  show ?case
    by (simp only: forEach_Suc IH sum.case)
       (simp add: cellGate_ok [OF wf k col] columnGates_Suc split: option.splits)
qed

lemma collectColumn_ok:
  assumes "wellFormed circuit n d" "col < d"
  shows "collectColumn circuit n col
       = Inr (columnHasGate circuit n col, columnGates circuit n col)"
  using collect_loop [OF assms order_refl]
  by (simp add: collectColumn_def columnHasGate_iff)

lemma anyGateInRows_ok:
  assumes wf: "wellFormed circuit n d" and col: "col < d"
  shows "\<forall>row \<in> set rows. row < n \<Longrightarrow>
         anyGateInRows circuit col rows = Inr (list_ex (\<lambda>row. circuit ! row ! col \<noteq> None) rows)"
proof (induction rows)
  case Nil
  show ?case by simp
next
  case (Cons row rows)
  then have "row < n" by simp
  with Cons show ?case
    by (simp add: cellGate_ok [OF wf _ col] split: option.splits)
qed

lemma anyGateInCols_ok:
  assumes wf: "wellFormed circuit n d"
  shows "\<forall>col \<in> set cols. col < d \<Longrightarrow>
         anyGateInCols circuit n cols = Inr (list_ex (columnHasGate circuit n) cols)"
proof (induction cols)
  case Nil
  show ?case by simp
next
  case (Cons col cols)
  then have col: "col < d" by simp
  have "anyGateInRows circuit col [0..<n] = Inr (columnHasGate circuit n col)"
    using anyGateInRows_ok [OF wf col, of "[0..<n]"] by (simp add: columnHasGate_def)
  with Cons show ?case by (simp split: bool.splits)
qed

lemma columnBody_ok:
  assumes wf: "wellFormed circuit n d" and col: "col < d" and ne: "steps \<noteq> []"
  shows "columnBody circuit n col steps =
     (if columnHasGate circuit n col then
        case applyGates n (columnGates circuit n col) (state (last steps), []) of
          Inl e \<Rightarrow> Inl e
        | Inr (s, ds) \<Rightarrow>
            Inr (steps @ [\<lparr>step = length steps, state = s,
                            description = ''Applied '' @ join '', '' ds\<rparr>])
      else Inr steps)"
  using ne by (simp add: columnBody_def collectColumn_ok [OF wf col] Let_def last_conv_nth)

lemma column_loop:
  assumes wf: "wellFormed circuit n d"
  shows "\<forall>col \<in> set cs. col < d \<Longrightarrow> steps \<noteq> [] \<Longrightarrow>
     forEach cs (columnBody circuit n) steps =
       (case laterSteps n circuit (filter (columnHasGate circuit n) cs)
               (state (last steps)) (length steps) of
          Inl e \<Rightarrow> Inl e
        | Inr rest \<Rightarrow> Inr (steps @ rest))"
proof (induction cs arbitrary: steps)
  case Nil
  show ?case by simp
next
  case (Cons col cs)
  then have col: "col < d" and rest: "\<forall>col \<in> set cs. col < d" by simp_all
  note body = columnBody_ok [OF wf col Cons.prems(2)]
  show ?case
  proof (cases "columnHasGate circuit n col")
    case False
    with Cons.IH [OF rest Cons.prems(2)] show ?thesis
      by (simp add: body)
  next
    case True
    show ?thesis
    proof (cases "applyGates n (columnGates circuit n col) (state (last steps), [])")
      case (Inl e)
      with True show ?thesis by (simp add: body)
    next
      case (Inr r)
      obtain s ds where r: "r = (s, ds)" by (cases r)
      let ?new = "\<lparr>step = length steps, state = s, description = ''Applied '' @ join '', '' ds\<rparr>"
      have "forEach (col # cs) (columnBody circuit n) steps
          = forEach cs (columnBody circuit n) (steps @ [?new])"
        using True Inr r by (simp add: body)
      also have "\<dots> = (case laterSteps n circuit (filter (columnHasGate circuit n) cs) s (Suc (length steps)) of
          Inl e \<Rightarrow> Inl e
        | Inr rest \<Rightarrow> Inr ((steps @ [?new]) @ rest))"
        using Cons.IH [OF rest, of "steps @ [?new]"] by simp
      finally show ?thesis
        using True Inr r by (simp split: sum.splits)
    qed
  qed
qed

lemma laterSteps_ok:
  assumes n32: "n < 32"
  shows "length prev = 2 ^ n \<Longrightarrow>
         \<exists>rest. laterSteps n circuit cols prev k = Inr rest \<and> length rest = length cols"
proof (induction cols arbitrary: prev k)
  case Nil
  show ?case by simp
next
  case (Cons col cols)
  obtain s ds where a: "applyGates n (columnGates circuit n col) (prev, []) = Inr (s, [] @ ds)"
    and l: "length s = 2 ^ n"
    using applyGates_ok [OF n32 Cons.prems columnGates_rows, of circuit col "[]"] by blast
  obtain rest where "laterSteps n circuit cols s (Suc k) = Inr rest" "length rest = length cols"
    using Cons.IH [OF l] by blast
  with a show ?case by simp
qed

text \<open>
  Claim C4. For a circuit of \<open>n\<close> rows and \<open>d\<close> columns and \<open>n\<close> initial values, the
  evaluator returns a history: step 0 holds the initial state, and the steps after it are
  \<open>laterSteps\<close> for the columns that hold a gate, taken from left to right and numbered
  from 1, one step for each such column and none for an empty column. When no column holds
  a gate the history is the initial step alone.
\<close>

theorem simulateCircuit_history:
  assumes n32: "n < 32" and inits: "length inits = n" and wf: "wellFormed circuit n d"
  shows "\<exists>psi0 rest.
           createInitialState n inits = Inr psi0 \<and>
           laterSteps n circuit (filter (columnHasGate circuit n) [0..<d]) psi0 1 = Inr rest \<and>
           length rest = length (filter (columnHasGate circuit n) [0..<d]) \<and>
           simulateCircuit n d circuit inits
             = Inr (\<lparr>step = 0, state = psi0, description = ''Initial state''\<rparr> # rest) \<and>
           (\<not> list_ex (columnHasGate circuit n) [0..<d] \<longrightarrow>
              simulateCircuit n d circuit inits
                = Inr [\<lparr>step = 0, state = psi0, description = ''Initial state''\<rparr>])"
proof -
  obtain idx where idx: "idx < 2 ^ n" and
    c: "createInitialState n inits = Inr ((replicate (2 ^ n) \<lparr>re = 0, im = 0\<rparr>)[idx := \<lparr>re = 1, im = 0\<rparr>])"
    using createInitialState_ok [of n inits] n32 inits by auto
  let ?psi0 = "(replicate (2 ^ n) \<lparr>re = 0, im = 0\<rparr>)[idx := \<lparr>re = 1, im = 0\<rparr>]"
  let ?s0 = "\<lparr>step = 0, state = ?psi0, description = ''Initial state''\<rparr>"
  let ?cols = "filter (columnHasGate circuit n) [0..<d]"
  have l0: "length ?psi0 = 2 ^ n" by simp
  obtain rest where r: "laterSteps n circuit ?cols ?psi0 1 = Inr rest"
    and lr: "length rest = length ?cols"
    using laterSteps_ok [OF n32 l0] by blast
  have any: "anyGateInCols circuit n [0..<d] = Inr (list_ex (columnHasGate circuit n) [0..<d])"
    using anyGateInCols_ok [OF wf, of "[0..<d]"] by simp
  have loop: "forEach [0..<d] (columnBody circuit n) [?s0] = Inr (?s0 # rest)"
    using column_loop [OF wf, of "[0..<d]" "[?s0]"] r by simp
  have none: "rest = []" if "\<not> list_ex (columnHasGate circuit n) [0..<d]"
  proof -
    from that have "?cols = []" by (simp add: list_ex_iff filter_empty_conv)
    with lr show ?thesis by simp
  qed
  have sim: "simulateCircuit n d circuit inits = Inr (?s0 # rest)"
    using none by (simp add: simulateCircuit_def c any loop Let_def)
  show ?thesis
    using c r lr sim none by auto
qed

theorem simulateCircuit_history_witness:
  "(1::nat) < 32 \<and> length [\<lparr>init_value = ''0'', phase = 0\<rparr>] = 1 \<and>
   wellFormed [[None, Some \<lparr>gate_id = ''x'', gate_name = ''X'', gate_description = ''Pauli-X'',
                  color = ''#e74c3c'', control = False, target = False\<rparr>]] 1 2 \<and>
   (\<exists>psi0 rest. createInitialState 1 [\<lparr>init_value = ''0'', phase = 0\<rparr>] = Inr psi0 \<and>
      length rest = 1 \<and>
      simulateCircuit 1 2
        [[None, Some \<lparr>gate_id = ''x'', gate_name = ''X'', gate_description = ''Pauli-X'',
                  color = ''#e74c3c'', control = False, target = False\<rparr>]]
        [\<lparr>init_value = ''0'', phase = 0\<rparr>]
      = Inr (\<lparr>step = 0, state = psi0, description = ''Initial state''\<rparr> # rest))"
proof -
  have wf: "wellFormed [[None, Some \<lparr>gate_id = ''x'', gate_name = ''X'', gate_description = ''Pauli-X'',
                  color = ''#e74c3c'', control = False, target = False\<rparr>]] 1 2"
    by (simp add: wellFormed_def)
  have cols: "filter (columnHasGate [[None, Some \<lparr>gate_id = ''x'', gate_name = ''X'', gate_description = ''Pauli-X'',
                  color = ''#e74c3c'', control = False, target = False\<rparr>]] 1) [0..<2] = [1]"
    by (simp add: columnHasGate_def upt_rec numeral_2_eq_2)
  from simulateCircuit_history [OF _ _ wf, of "[\<lparr>init_value = ''0'', phase = 0\<rparr>]"] wf
  show ?thesis
    by (simp only: cols) auto
qed

section \<open>The cells collected for a column\<close>




section \<open>Partial trace\<close>

lemma mapToReducedIndex_loop: "mapToReducedIndex n S i = fst (mapLoop S i n)"
  by (simp add: mapToReducedIndex_def mapLoop_def)

lemma keptBelow_le: "keptBelow S k \<le> k"
  unfolding keptBelow_def by (metis diff_zero length_filter_le length_upt)

lemma keptBelow_Suc: "keptBelow S (Suc k) = (if k \<in> set S then keptBelow S k else Suc (keptBelow S k))"
  by (simp add: keptBelow_def)

lemma and_pow_bit:
  fixes i :: nat
  shows "(i AND 2 ^ k = 0) = (\<not> bit i k)" "(0 < i AND 2 ^ k) = bit i k"
  by (simp_all add: bit_iff_and_push_bit_not_eq_0)

lemma mapLoop_Suc:
  "mapLoop S i (Suc k) =
     (if k \<in> set S then mapLoop S i k
      else ((if i AND js_shl1 k \<noteq> 0
             then fst (mapLoop S i k) OR js_shl1 (snd (mapLoop S i k)) else fst (mapLoop S i k)),
            snd (mapLoop S i k) + 1))"
  by (simp add: mapLoop_def split_beta)

lemma mapLoop_inv:
  "k \<le> 32 \<Longrightarrow> snd (mapLoop S i k) = keptBelow S k \<and> fst (mapLoop S i k) < 2 ^ keptBelow S k"
proof (induction k)
  case 0
  show ?case by (simp add: mapLoop_def keptBelow_def)
next
  case (Suc k)
  then have IH: "snd (mapLoop S i k) = keptBelow S k" "fst (mapLoop S i k) < 2 ^ keptBelow S k"
    by simp_all
  have c: "keptBelow S k < 32"
    using keptBelow_le [of S k] Suc.prems by simp
  have lt: "fst (mapLoop S i k) < 2 ^ Suc (keptBelow S k)"
    using IH(2) by simp
  have "fst (mapLoop S i k) OR 2 ^ keptBelow S k < 2 ^ Suc (keptBelow S k)"
    by (rule or_pow_lt [OF _ lt]) simp
  with IH lt c show ?case
    by (simp add: mapLoop_Suc keptBelow_Suc js_shl1_small)
qed

lemma mapLoop_step:
  assumes "k < 32"
  shows "fst (mapLoop S i (Suc k)) =
     (if k \<in> set S then fst (mapLoop S i k)
      else if bit i k then fst (mapLoop S i k) OR 2 ^ keptBelow S k
      else fst (mapLoop S i k))"
proof -
  have "keptBelow S k < 32"
    using keptBelow_le [of S k] assms by simp
  with assms show ?thesis
    using mapLoop_inv [of k S i]
    by (simp add: mapLoop_Suc js_shl1_small and_pow_bit)
qed

lemma or_pow_cancel:
  fixes r r' :: nat
  assumes "r < 2 ^ c" "r' < 2 ^ c"
  shows "(r OR 2 ^ c = r' OR 2 ^ c) = (r = r')" "r OR 2 ^ c \<noteq> r'"
proof -
  have t: "take_bit c (r OR 2 ^ c) = r" "take_bit c (r' OR 2 ^ c) = r'"
    using assms by (simp_all add: take_bit_or take_bit_nat_eq_self)
  show "(r OR 2 ^ c = r' OR 2 ^ c) = (r = r')"
    using t by metis
  have "bit (r OR 2 ^ c) c" by (simp add: bit_or_iff bit_exp_iff)
  moreover have "\<not> bit r' c"
    using assms(2) by (metis bit_take_bit_iff less_irrefl take_bit_nat_eq_self)
  ultimately show "r OR 2 ^ c \<noteq> r'" by metis
qed

lemma mapLoop_inj:
  "k \<le> 32 \<Longrightarrow> \<forall>q \<in> set S. bit i q = bit j q \<Longrightarrow>
   fst (mapLoop S i k) = fst (mapLoop S j k) \<Longrightarrow> \<forall>q < k. bit i q = bit j q"
proof (induction k)
  case 0
  show ?case by simp
next
  case (Suc k)
  then have k: "k < 32" "k \<le> 32" by simp_all
  note bi = mapLoop_inv [OF k(2), of S i] and bj = mapLoop_inv [OF k(2), of S j]
  have eq: "fst (mapLoop S i k) = fst (mapLoop S j k) \<and> bit i k = bit j k"
  proof (cases "k \<in> set S")
    case True
    with Suc.prems show ?thesis by (simp add: mapLoop_step [OF k(1)])
  next
    case False
    with Suc.prems(3) show ?thesis
      using or_pow_cancel [of "fst (mapLoop S i k)" "keptBelow S k" "fst (mapLoop S j k)"]
        or_pow_cancel [of "fst (mapLoop S j k)" "keptBelow S k" "fst (mapLoop S i k)"] bi bj
      by (auto simp add: mapLoop_step [OF k(1)] split: if_splits)
  qed
  with Suc.IH [OF k(2) Suc.prems(2)] show ?case
    by (auto simp add: less_Suc_eq)
qed

lemma bits_below_eq:
  fixes i j :: nat
  assumes "i < 2 ^ n" "j < 2 ^ n" "\<forall>q < n. bit i q = bit j q"
  shows "i = j"
proof -
  have "take_bit n i = take_bit n j"
    using assms(3) by (auto simp add: bit_eq_iff bit_take_bit_iff)
  with assms(1,2) show ?thesis by (simp add: take_bit_nat_eq_self)
qed

lemma shouldInclude_iff:
  assumes "\<forall>q \<in> set S. q < 32"
  shows "shouldInclude S i j = (\<forall>q \<in> set S. bit i q = bit j q)"
  using assms by (auto simp add: shouldInclude_def list_all_iff js_shr_mod2 split: if_splits)

lemma mapLoop_nil: "k \<le> 32 \<Longrightarrow> fst (mapLoop [] i k) = take_bit k i"
proof (induction k)
  case 0
  show ?case by (simp add: mapLoop_def)
next
  case (Suc k)
  then have k: "k < 32" by simp
  have kb: "keptBelow [] k = k" by (simp add: keptBelow_def)
  have "take_bit k i OR 2 ^ k = take_bit (Suc k) i" if b: "bit i k"
  proof (rule bit_eqI)
    fix m
    show "bit (take_bit k i OR 2 ^ k) m = bit (take_bit (Suc k) i) m"
      using b by (auto simp add: bit_or_iff bit_take_bit_iff bit_exp_iff less_Suc_eq)
  qed
  moreover have "take_bit k i = take_bit (Suc k) i" if b: "\<not> bit i k"
  proof (rule bit_eqI)
    fix m
    show "bit (take_bit k i) m = bit (take_bit (Suc k) i) m"
      using b by (auto simp add: bit_take_bit_iff less_Suc_eq)
  qed
  ultimately show ?case
    using Suc by (simp add: mapLoop_step [OF k] kb)
qed

lemma keptBelow_count:
  assumes "distinct S" "\<forall>q \<in> set S. q < n"
  shows "keptBelow S n = n - length S"
proof -
  have "length (filter (\<lambda>q. q \<in> set S) [0..<n]) = card (set S)"
  proof -
    have "set (filter (\<lambda>q. q \<in> set S) [0..<n]) = set S"
      using assms(2) by auto
    moreover have "distinct (filter (\<lambda>q. q \<in> set S) [0..<n])" by simp
    ultimately show ?thesis by (metis distinct_card)
  qed
  then have "length (filter (\<lambda>q. q \<in> set S) [0..<n]) = length S"
    using assms(1) by (simp add: distinct_card)
  moreover have "length (filter (\<lambda>q. q \<in> set S) [0..<n]) + keptBelow S n = n"
    using sum_length_filter_compl [of "\<lambda>q. q \<in> set S" "[0..<n]"] by (simp add: keptBelow_def)
  ultimately show ?thesis by simp
qed

lemma isSquare_nth: "isSquare d m \<Longrightarrow> a < d \<Longrightarrow> length (m ! a) = d"
  by (simp add: isSquare_def list_all_length)

lemma isSquare_update:
  assumes "isSquare d m" "a < d"
  shows "isSquare d (m[a := (m ! a)[b := v]])"
  using assms by (auto simp add: isSquare_def list_all_length nth_list_update)

lemma nth_update2:
  "a < length m \<Longrightarrow>
   (m[p := (m ! p)[r := v]]) ! a ! b
     = (if a = p \<and> b = r \<and> r < length (m ! p) then v else m ! a ! b)"
  by (cases "a = p"; cases "b = r"; cases "r < length (m ! p)")
     (simp_all add: nth_list_update list_update_beyond)

lemma asum_Suc: "asum f (Suc k) = complexAdd (asum f k) (f k)"
  by (simp add: asum_def complexAdd_def)

lemma asum_0: "asum f 0 = czero"
  by (simp add: asum_def czero_def)

lemma complexAdd_assoc: "complexAdd (complexAdd a b) c = complexAdd a (complexAdd b c)"
  by (simp add: complexAdd_def)

lemma trace_inner:
  assumes i: "i < length rho" and mi: "mapToReducedIndex n S i < d"
  shows "isSquare d R \<Longrightarrow> \<forall>j < k. j < length (rho ! i) \<and> mapToReducedIndex n S j < d \<Longrightarrow>
     \<exists>R'. forEach [0..<k] (traceBody rho n S i) R = Inr R' \<and> isSquare d R' \<and>
       (\<forall>a < d. \<forall>b < d. R' ! a ! b = complexAdd (R ! a ! b) (asum (contrib rho n S a b i) k))"
proof (induction k)
  case 0
  then show ?case by (simp add: asum_0)
next
  case (Suc k)
  then obtain R1 where r1: "forEach [0..<k] (traceBody rho n S i) R = Inr R1"
    and sq1: "isSquare d R1"
    and e1: "\<forall>a < d. \<forall>b < d. R1 ! a ! b = complexAdd (R ! a ! b) (asum (contrib rho n S a b i) k)"
    by auto
  from Suc.prems have kr: "k < length (rho ! i)" and mk: "mapToReducedIndex n S k < d"
    by simp_all
  have step: "forEach [0..<Suc k] (traceBody rho n S i) R = traceBody rho n S i k R1"
    by (simp only: forEach_Suc r1 sum.case)
  show ?case
  proof (cases "shouldInclude S i k")
    case False
    then have "traceBody rho n S i k R1 = Inr R1"
      by (simp add: traceBody_def)
    moreover have "contrib rho n S a b i k = czero" for a b
      using False by (simp add: contrib_def)
    ultimately show ?thesis
      using sq1 e1 by (simp add: step asum_Suc del: upt_Suc)
  next
    case True
    let ?I = "mapToReducedIndex n S i" and ?J = "mapToReducedIndex n S k"
    let ?v = "\<lparr>re = re (R1 ! ?I ! ?J) + re (rho ! i ! k), im = im (R1 ! ?I ! ?J) + im (rho ! i ! k)\<rparr>"
    let ?R' = "R1[?I := (R1 ! ?I)[?J := ?v]]"
    have lenR1: "length R1 = d" using sq1 by (simp add: isSquare_def)
    have rowlen: "length (R1 ! ?I) = d" using sq1 mi by (rule isSquare_nth)
    have tb: "traceBody rho n S i k R1 = Inr ?R'"
      using True i kr mi mk lenR1 rowlen by (simp add: traceBody_def Let_def)
    have sq: "isSquare d ?R'" using sq1 mi by (rule isSquare_update)
    have v: "?v = complexAdd (R1 ! ?I ! ?J) (rho ! i ! k)"
      by (simp add: complexAdd_def)
    have ent: "?R' ! a ! b = complexAdd (R ! a ! b) (asum (contrib rho n S a b i) (Suc k))"
      if a: "a < d" and b: "b < d" for a b
    proof (cases "a = ?I \<and> b = ?J")
      case True
      then have ab: "a = ?I" "b = ?J" by simp_all
      have s1: "?R' ! ?I ! ?J = complexAdd (R1 ! ?I ! ?J) (rho ! i ! k)"
        using lenR1 rowlen mi mk by (simp add: nth_update2 complexAdd_def)
      have s2: "R1 ! ?I ! ?J = complexAdd (R ! ?I ! ?J) (asum (contrib rho n S ?I ?J i) k)"
        using e1 mi mk by simp
      have s3: "contrib rho n S ?I ?J i k = rho ! i ! k"
        using \<open>shouldInclude S i k\<close> by (simp add: contrib_def)
      show ?thesis
        unfolding ab asum_Suc s3 complexAdd_assoc [symmetric] s2 [symmetric] by (rule s1)
    next
      case False
      then have "?R' ! a ! b = R1 ! a ! b"
        using lenR1 a by (auto simp add: nth_update2)
      moreover have "contrib rho n S a b i k = czero"
        using False by (auto simp add: contrib_def)
      ultimately show ?thesis
        using e1 a b by (simp add: asum_Suc)
    qed
    show ?thesis
      using tb sq ent by (simp add: step del: upt_Suc)
  qed
qed

lemma trace_outer:
  assumes rows: "\<forall>i < length rho. \<forall>j < D. j < length (rho ! i)"
    and maps: "\<forall>x. x < length rho \<or> x < D \<longrightarrow> mapToReducedIndex n S x < d"
  shows "isSquare d R \<Longrightarrow> k \<le> length rho \<Longrightarrow>
     \<exists>R'. forEach [0..<k] (\<lambda>i. forEach [0..<D] (traceBody rho n S i)) R = Inr R' \<and>
       isSquare d R' \<and>
       (\<forall>a < d. \<forall>b < d. R' ! a ! b
          = complexAdd (R ! a ! b) (asum (\<lambda>i. asum (contrib rho n S a b i) D) k))"
proof (induction k)
  case 0
  then show ?case by (simp add: asum_0)
next
  case (Suc k)
  then obtain R1 where r1: "forEach [0..<k] (\<lambda>i. forEach [0..<D] (traceBody rho n S i)) R = Inr R1"
    and sq1: "isSquare d R1"
    and e1: "\<forall>a < d. \<forall>b < d. R1 ! a ! b
          = complexAdd (R ! a ! b) (asum (\<lambda>i. asum (contrib rho n S a b i) D) k)"
    by auto
  from Suc.prems have k: "k < length rho" by simp
  have mk: "mapToReducedIndex n S k < d" using maps k by simp
  have pre: "\<forall>j < D. j < length (rho ! k) \<and> mapToReducedIndex n S j < d"
    using rows maps k by simp
  obtain R2 where r2: "forEach [0..<D] (traceBody rho n S k) R1 = Inr R2"
    and sq2: "isSquare d R2"
    and e2: "\<forall>a < d. \<forall>b < d. R2 ! a ! b = complexAdd (R1 ! a ! b) (asum (contrib rho n S a b k) D)"
    using trace_inner [OF k mk sq1 pre] by blast
  have "forEach [0..<Suc k] (\<lambda>i. forEach [0..<D] (traceBody rho n S i)) R = Inr R2"
    by (simp only: forEach_Suc r1 sum.case r2)
  then show ?case
    using sq2 e1 e2 by (simp add: asum_Suc complexAdd_assoc del: upt_Suc)
qed

lemma asum_cong: "(\<And>x. x < k \<Longrightarrow> f x = g x) \<Longrightarrow> asum f k = asum g k"
  by (simp add: asum_def)

lemma asum_delta:
  assumes "c < k"
  shows "asum (\<lambda>x. if x = c then v else czero) k = v"
proof -
  have "(\<Sum>x<k. re (if x = c then v else czero)) = (\<Sum>x<k. if x = c then re v else 0)"
    by (rule sum.cong) (simp_all add: czero_def)
  moreover have "(\<Sum>x<k. im (if x = c then v else czero)) = (\<Sum>x<k. if x = c then im v else 0)"
    by (rule sum.cong) (simp_all add: czero_def)
  ultimately show ?thesis
    using assms by (simp add: asum_def)
qed

lemma asum_czero: "asum (\<lambda>x. czero) k = czero"
  by (simp add: asum_def czero_def)

lemma mapToReducedIndex_bound:
  assumes "n < 32" "distinct S" "\<forall>q \<in> set S. q < n"
  shows "mapToReducedIndex n S x < 2 ^ (n - length S)"
  using mapLoop_inv [of n S x] assms
  by (simp add: mapToReducedIndex_loop keptBelow_count)

lemma included_diag:
  assumes n32: "n < 32" and S: "\<forall>q \<in> set S. q < n" and i: "i < 2 ^ n" and j: "j < 2 ^ n"
  shows "(shouldInclude S i j \<and> mapToReducedIndex n S i = mapToReducedIndex n S j) = (i = j)"
proof -
  have S32: "\<forall>q \<in> set S. q < 32" using S n32 by auto
  have "i = j" if inc: "shouldInclude S i j"
    and eq: "mapToReducedIndex n S i = mapToReducedIndex n S j"
  proof -
    have "\<forall>q \<in> set S. bit i q = bit j q"
      using inc by (simp add: shouldInclude_iff [OF S32])
    then have "\<forall>q < n. bit i q = bit j q"
      using mapLoop_inj [of n S i j] n32 eq by (simp add: mapToReducedIndex_loop)
    with i j show ?thesis by (rule bits_below_eq)
  qed
  moreover have "shouldInclude S i i"
    by (simp add: shouldInclude_iff [OF S32])
  ultimately show ?thesis by auto
qed

lemma diag_sum:
  fixes h :: "amp \<Rightarrow> real"
  assumes h0: "h czero = 0"
    and n32: "n < 32" and S: "\<forall>q \<in> set S. q < n"
    and maps: "\<And>x. mapToReducedIndex n S x < d"
  shows "(\<Sum>a<d. \<Sum>i<2 ^ n. \<Sum>j<2 ^ n. h (contrib rho n S a a i j)) = (\<Sum>i<2 ^ n. h (rho ! i ! i))"
proof -
  have inner: "(\<Sum>a<d. h (contrib rho n S a a i j)) = (if j = i then h (rho ! i ! i) else 0)"
    if "i \<in> {..<(2::nat) ^ n}" "j \<in> {..<(2::nat) ^ n}" for i j
  proof (cases "j = i")
    case True
    have "shouldInclude S i i"
      using included_diag [OF n32 S, of i i] that by simp
    then have "(\<Sum>a<d. h (contrib rho n S a a i i))
        = (\<Sum>a<d. if a = mapToReducedIndex n S i then h (rho ! i ! i) else 0)"
      by (intro sum.cong refl) (auto simp add: contrib_def h0)
    also have "\<dots> = h (rho ! i ! i)"
      using maps [of i] by simp
    finally show ?thesis using True by simp
  next
    case False
    then have "\<not> (shouldInclude S i j \<and> mapToReducedIndex n S i = mapToReducedIndex n S j)"
      using included_diag [OF n32 S, of i j] that by auto
    then have "contrib rho n S a a i j = czero" for a
      by (auto simp add: contrib_def)
    with False show ?thesis by (simp add: h0)
  qed
  have "(\<Sum>a<d. \<Sum>i<2 ^ n. \<Sum>j<2 ^ n. h (contrib rho n S a a i j))
      = (\<Sum>i<2 ^ n. \<Sum>a<d. \<Sum>j<2 ^ n. h (contrib rho n S a a i j))"
    by (rule sum.swap)
  also have "\<dots> = (\<Sum>i<2 ^ n. \<Sum>j<2 ^ n. \<Sum>a<d. h (contrib rho n S a a i j))"
    by (intro sum.cong refl sum.swap)
  also have "\<dots> = (\<Sum>i<2 ^ n. \<Sum>j<2 ^ n. if j = i then h (rho ! i ! i) else 0)"
    by (intro sum.cong refl inner)
  also have "\<dots> = (\<Sum>i<2 ^ n. h (rho ! i ! i))"
    by (intro sum.cong refl) simp
  finally show ?thesis .
qed

lemma matrixTrace_sum:
  "matrixTrace m = \<lparr>re = (\<Sum>a<length m. re (m ! a ! a)), im = (\<Sum>a<length m. im (m ! a ! a))\<rparr>"
  by (simp add: matrixTrace_def interv_sum_list_conv_sum_set_nat atLeast0LessThan)

lemma isSquare_zero: "isSquare d (replicate d (replicate d \<lparr>re = 0, im = 0\<rparr>))"
  by (simp add: isSquare_def list_all_length)

lemma partialTrace_entries:
  assumes n32: "n < 32" and sq: "isSquare (2 ^ n) rho"
    and dist: "distinct S" and S: "\<forall>q \<in> set S. q < n"
  shows "\<exists>R. calculatePartialTrace rho n S = Inr R \<and> isSquare (2 ^ (n - length S)) R \<and>
           (\<forall>a < 2 ^ (n - length S). \<forall>b < 2 ^ (n - length S).
              R ! a ! b = asum (\<lambda>i. asum (contrib rho n S a b i) (2 ^ n)) (2 ^ n))"
proof -
  let ?d = "(2::nat) ^ (n - length S)"
  let ?Z = "replicate ?d (replicate ?d \<lparr>re = 0, im = 0\<rparr>)"
  have len: "length rho = 2 ^ n" using sq by (simp add: isSquare_def)
  have lenS: "length S \<le> n"
  proof -
    have "card (set S) \<le> card {..<n}"
      using S by (intro card_mono) auto
    then show ?thesis using dist by (simp add: distinct_card)
  qed
  have rows: "\<forall>i < length rho. \<forall>j < 2 ^ n. j < length (rho ! i)"
    using sq by (simp add: isSquare_def list_all_length)
  have maps: "\<forall>x. x < length rho \<or> x < 2 ^ n \<longrightarrow> mapToReducedIndex n S x < ?d"
    using mapToReducedIndex_bound [OF n32 dist S] by simp
  obtain R where r: "forEach [0..<length rho] (\<lambda>i. forEach [0..<2 ^ n] (traceBody rho n S i)) ?Z = Inr R"
    and sqR: "isSquare ?d R"
    and ent: "\<forall>a < ?d. \<forall>b < ?d. R ! a ! b
          = complexAdd (?Z ! a ! b) (asum (\<lambda>i. asum (contrib rho n S a b i) (2 ^ n)) (length rho))"
    using trace_outer [OF rows maps isSquare_zero order_refl] by blast
  have "calculatePartialTrace rho n S = Inr R"
    using lenS n32 r by (simp add: calculatePartialTrace_def Let_def len)
  moreover have "\<forall>a < ?d. \<forall>b < ?d. R ! a ! b = asum (\<lambda>i. asum (contrib rho n S a b i) (2 ^ n)) (2 ^ n)"
    using ent by (simp add: len complexAdd_def)
  ultimately show ?thesis using sqR by blast
qed

text \<open>
  Claim C7. For a density matrix \<open>rho\<close> of dimension \<open>2^n\<close> and a list \<open>S\<close> of
  distinct qubits below \<open>n\<close> (so for every non-empty proper subset of the qubits, and
  for the empty and the full set as well), \<open>calculatePartialTrace\<close> succeeds and returns
  a square matrix of dimension \<open>2^(n - |S|)\<close> with the trace of \<open>rho\<close>, in exact
  arithmetic; when the trace of \<open>rho\<close> is 1 its trace is within \<open>1e-9\<close> of 1.
\<close>

theorem calculatePartialTrace_trace:
  assumes n32: "n < 32" and sq: "isSquare (2 ^ n) rho"
    and dist: "distinct S" and S: "\<forall>q \<in> set S. q < n"
  shows "\<exists>R. calculatePartialTrace rho n S = Inr R \<and> isSquare (2 ^ (n - length S)) R \<and>
           matrixTrace R = matrixTrace rho \<and>
           (matrixTrace rho = \<lparr>re = 1, im = 0\<rparr> \<longrightarrow> \<bar>re (matrixTrace R) - 1\<bar> \<le> 1 / 10 ^ 9)"
proof -
  let ?d = "(2::nat) ^ (n - length S)"
  obtain R where r: "calculatePartialTrace rho n S = Inr R" and sqR: "isSquare ?d R"
    and ent: "\<forall>a < ?d. \<forall>b < ?d. R ! a ! b = asum (\<lambda>i. asum (contrib rho n S a b i) (2 ^ n)) (2 ^ n)"
    using partialTrace_entries [OF assms] by blast
  have lenR: "length R = ?d" using sqR by (simp add: isSquare_def)
  have len: "length rho = 2 ^ n" using sq by (simp add: isSquare_def)
  have maps: "mapToReducedIndex n S x < ?d" for x
    by (rule mapToReducedIndex_bound [OF n32 dist S])
  have "(\<Sum>a<?d. re (R ! a ! a)) = (\<Sum>a<?d. \<Sum>i<2 ^ n. \<Sum>j<2 ^ n. re (contrib rho n S a a i j))"
    by (rule sum.cong) (simp_all add: ent asum_def)
  also have "\<dots> = (\<Sum>i<2 ^ n. re (rho ! i ! i))"
    by (rule diag_sum [OF _ n32 S maps]) (simp add: czero_def)
  finally have tre: "(\<Sum>a<?d. re (R ! a ! a)) = (\<Sum>i<2 ^ n. re (rho ! i ! i))" .
  have "(\<Sum>a<?d. im (R ! a ! a)) = (\<Sum>a<?d. \<Sum>i<2 ^ n. \<Sum>j<2 ^ n. im (contrib rho n S a a i j))"
    by (rule sum.cong) (simp_all add: ent asum_def)
  also have "\<dots> = (\<Sum>i<2 ^ n. im (rho ! i ! i))"
    by (rule diag_sum [OF _ n32 S maps]) (simp add: czero_def)
  finally have tim: "(\<Sum>a<?d. im (R ! a ! a)) = (\<Sum>i<2 ^ n. im (rho ! i ! i))" .
  have "matrixTrace R = matrixTrace rho"
    by (simp only: matrixTrace_sum lenR len tre tim)
  with r sqR show ?thesis by auto
qed

theorem calculatePartialTrace_trace_witness:
  "(2::nat) < 32 \<and>
   isSquare (2 ^ 2)
     [[\<lparr>re = 1 / 2, im = 0\<rparr>, \<lparr>re = 0, im = 0\<rparr>, \<lparr>re = 0, im = 0\<rparr>, \<lparr>re = 1 / 2, im = 0\<rparr>],
      [\<lparr>re = 0, im = 0\<rparr>, \<lparr>re = 0, im = 0\<rparr>, \<lparr>re = 0, im = 0\<rparr>, \<lparr>re = 0, im = 0\<rparr>],
      [\<lparr>re = 0, im = 0\<rparr>, \<lparr>re = 0, im = 0\<rparr>, \<lparr>re = 0, im = 0\<rparr>, \<lparr>re = 0, im = 0\<rparr>],
      [\<lparr>re = 1 / 2, im = 0\<rparr>, \<lparr>re = 0, im = 0\<rparr>, \<lparr>re = 0, im = 0\<rparr>, \<lparr>re = 1 / 2, im = 0\<rparr>]] \<and>
   distinct [1::nat] \<and> (1::nat) < 2 \<and>
   (\<exists>R. calculatePartialTrace
     [[\<lparr>re = 1 / 2, im = 0\<rparr>, \<lparr>re = 0, im = 0\<rparr>, \<lparr>re = 0, im = 0\<rparr>, \<lparr>re = 1 / 2, im = 0\<rparr>],
      [\<lparr>re = 0, im = 0\<rparr>, \<lparr>re = 0, im = 0\<rparr>, \<lparr>re = 0, im = 0\<rparr>, \<lparr>re = 0, im = 0\<rparr>],
      [\<lparr>re = 0, im = 0\<rparr>, \<lparr>re = 0, im = 0\<rparr>, \<lparr>re = 0, im = 0\<rparr>, \<lparr>re = 0, im = 0\<rparr>],
      [\<lparr>re = 1 / 2, im = 0\<rparr>, \<lparr>re = 0, im = 0\<rparr>, \<lparr>re = 0, im = 0\<rparr>, \<lparr>re = 1 / 2, im = 0\<rparr>]] 2 [1] = Inr R \<and>
      isSquare (2 ^ (2 - length [1::nat])) R \<and>
      matrixTrace R = \<lparr>re = 1, im = 0\<rparr>)"
proof -
  have sq: "isSquare (2 ^ 2)
     [[\<lparr>re = 1 / 2, im = 0\<rparr>, \<lparr>re = 0, im = 0\<rparr>, \<lparr>re = 0, im = 0\<rparr>, \<lparr>re = 1 / 2, im = 0\<rparr>],
      [\<lparr>re = 0, im = 0\<rparr>, \<lparr>re = 0, im = 0\<rparr>, \<lparr>re = 0, im = 0\<rparr>, \<lparr>re = 0, im = 0\<rparr>],
      [\<lparr>re = 0, im = 0\<rparr>, \<lparr>re = 0, im = 0\<rparr>, \<lparr>re = 0, im = 0\<rparr>, \<lparr>re = 0, im = 0\<rparr>],
      [\<lparr>re = 1 / 2, im = 0\<rparr>, \<lparr>re = 0, im = 0\<rparr>, \<lparr>re = 0, im = 0\<rparr>, \<lparr>re = 1 / 2, im = 0\<rparr>]]"
    by (simp add: isSquare_def)
  have tr: "matrixTrace
     [[\<lparr>re = 1 / 2, im = 0\<rparr>, \<lparr>re = 0, im = 0\<rparr>, \<lparr>re = 0, im = 0\<rparr>, \<lparr>re = 1 / 2, im = 0\<rparr>],
      [\<lparr>re = 0, im = 0\<rparr>, \<lparr>re = 0, im = 0\<rparr>, \<lparr>re = 0, im = 0\<rparr>, \<lparr>re = 0, im = 0\<rparr>],
      [\<lparr>re = 0, im = 0\<rparr>, \<lparr>re = 0, im = 0\<rparr>, \<lparr>re = 0, im = 0\<rparr>, \<lparr>re = 0, im = 0\<rparr>],
      [\<lparr>re = 1 / 2, im = 0\<rparr>, \<lparr>re = 0, im = 0\<rparr>, \<lparr>re = 0, im = 0\<rparr>, \<lparr>re = 1 / 2, im = 0\<rparr>]] = \<lparr>re = 1, im = 0\<rparr>"
    by (simp add: matrixTrace_def upt_rec)
  from calculatePartialTrace_trace [OF _ sq, of "[1]"] tr sq
  show ?thesis by auto
qed

text \<open>
  Claim C10. With nothing traced out, \<open>calculatePartialTrace\<close> returns the density
  matrix it was given: the same dimension and the same entries.
\<close>

theorem calculatePartialTrace_nothing:
  assumes n32: "n < 32" and sq: "isSquare (2 ^ n) rho"
  shows "calculatePartialTrace rho n [] = Inr rho"
proof -
  obtain R where r: "calculatePartialTrace rho n [] = Inr R" and sqR: "isSquare (2 ^ n) R"
    and ent: "\<forall>a < 2 ^ n. \<forall>b < 2 ^ n. R ! a ! b = asum (\<lambda>i. asum (contrib rho n [] a b i) (2 ^ n)) (2 ^ n)"
    using partialTrace_entries [OF n32 sq, of "[]"] by auto
  have mapid: "mapToReducedIndex n [] x = x" if "x < 2 ^ n" for x
    using that mapLoop_nil [of n x] n32
    by (simp add: mapToReducedIndex_loop take_bit_nat_eq_self)
  have entry: "R ! a ! b = rho ! a ! b" if a: "a < 2 ^ n" and b: "b < 2 ^ n" for a b
  proof -
    have "asum (contrib rho n [] a b i) (2 ^ n) = (if i = a then rho ! a ! b else czero)"
      if i: "i < 2 ^ n" for i
    proof -
      have "asum (contrib rho n [] a b i) (2 ^ n)
          = asum (\<lambda>j. if j = b then (if i = a then rho ! a ! b else czero) else czero) (2 ^ n)"
        by (rule asum_cong) (auto simp add: contrib_def shouldInclude_def mapid i)
      then show ?thesis using b by (simp only: asum_delta)
    qed
    then have "asum (\<lambda>i. asum (contrib rho n [] a b i) (2 ^ n)) (2 ^ n)
        = asum (\<lambda>i. if i = a then rho ! a ! b else czero) (2 ^ n)"
      by (intro asum_cong)
    then show ?thesis
      using a b ent by (simp add: asum_delta)
  qed
  have "R = rho"
  proof (rule nth_equalityI)
    show "length R = length rho"
      using sq sqR by (simp add: isSquare_def)
  next
    fix a assume "a < length R"
    then have a: "a < 2 ^ n" using sqR by (simp add: isSquare_def)
    show "R ! a = rho ! a"
    proof (rule nth_equalityI)
      show "length (R ! a) = length (rho ! a)"
        using isSquare_nth [OF sq a] isSquare_nth [OF sqR a] by simp
    next
      fix b assume "b < length (R ! a)"
      then have "b < 2 ^ n" using isSquare_nth [OF sqR a] by simp
      with a show "R ! a ! b = rho ! a ! b" by (rule entry)
    qed
  qed
  with r show ?thesis by simp
qed

theorem calculatePartialTrace_nothing_witness:
  "(1::nat) < 32 \<and> isSquare (2 ^ 1) [[\<lparr>re = 1, im = 0\<rparr>, \<lparr>re = 0, im = 0\<rparr>], [\<lparr>re = 0, im = 0\<rparr>, \<lparr>re = 0, im = 0\<rparr>]] \<and>
   calculatePartialTrace [[\<lparr>re = 1, im = 0\<rparr>, \<lparr>re = 0, im = 0\<rparr>], [\<lparr>re = 0, im = 0\<rparr>, \<lparr>re = 0, im = 0\<rparr>]] 1 [] = Inr [[\<lparr>re = 1, im = 0\<rparr>, \<lparr>re = 0, im = 0\<rparr>], [\<lparr>re = 0, im = 0\<rparr>, \<lparr>re = 0, im = 0\<rparr>]]"
proof -
  have sq: "isSquare (2 ^ 1) [[\<lparr>re = 1, im = 0\<rparr>, \<lparr>re = 0, im = 0\<rparr>], [\<lparr>re = 0, im = 0\<rparr>, \<lparr>re = 0, im = 0\<rparr>]]"
    by (simp add: isSquare_def)
  from calculatePartialTrace_nothing [OF _ sq] sq
  show ?thesis by simp
qed

end
